theory Spec2Isabelle
  imports Complex_Main "HOL-Library.Word" "HOL-Library.Sublist" "HOL-Library.AList"
begin

section \<open>WireScope: the log stream engine\<close>

text \<open>
  A shallow embedding of the TypeScript sources of WireScope: the bounded log store of
  \<^verbatim>\<open>hooks/useLogStream.ts\<close>, the payload formatters of \<^verbatim>\<open>lib/format.ts\<close>, the
  settings loader of \<^verbatim>\<open>lib/settings.ts\<close>, the row window of
  \<^verbatim>\<open>components/LogView.tsx\<close> and the filter of the single-file application variant.
\<close>

subsection \<open>Strings and frames\<close>

text \<open>
  A JavaScript string is a sequence of UTF-16 code units. The line-ending markers of the
  formatters lie outside ASCII, so a string is a list of 16-bit words; \<open>str\<close> embeds an
  ASCII literal.
\<close>

type_synonym jsstring = "16 word list"

definition str :: "string \<Rightarrow> jsstring" where
  "str s = map of_char s"

text \<open>\<^verbatim>\<open>interface LogLine\<close> of \<^verbatim>\<open>types/wirescope.ts\<close>. The numbers are taken as integers; the field
  \<^verbatim>\<open>text\<close> is \<open>line_text\<close> here.\<close>

record LogLine =
  when_iso :: jsstring
  interval_ms :: int
  dir :: jsstring
  origin :: jsstring
  line_text :: jsstring
  raw :: "int list"
  connId :: jsstring

subsection \<open>The bounded store: \<^verbatim>\<open>appendLogs\<close>\<close>

definition MAX_LOG_LINES :: int where
  "MAX_LOG_LINES = 6000"

text \<open>
  \<^verbatim>\<open>Array.prototype.slice(start)\<close>: a negative start counts from the end, and the start
  is clamped into the array.
\<close>

definition slice_from :: "'a list \<Rightarrow> int \<Rightarrow> 'a list" where
  "slice_from xs start =
     (let n = int (length xs);
          k = (if start < 0 then max (n + start) 0 else min start n)
      in drop (nat k) xs)"

text \<open>
  \<^verbatim>\<open>appendLogs(incoming)\<close> returns at once on an empty batch and otherwise hands React
  the updater \<^verbatim>\<open>previous => ...\<close>; the model applies the updater to the store.
\<close>

definition appendLogs :: "LogLine list \<Rightarrow> LogLine list \<Rightarrow> LogLine list" where
  "appendLogs incoming previous =
     (if length incoming = 0 then previous
      else
        let total = int (length previous) + int (length incoming) in
        if total \<le> MAX_LOG_LINES then previous @ incoming
        else
          let overflow = total - MAX_LOG_LINES in
          if overflow \<ge> int (length previous)
          then slice_from incoming (int (length incoming) - MAX_LOG_LINES)
          else slice_from previous overflow @ incoming)"

text \<open>A sequence of appends, one per batch, in order.\<close>

fun appendAll :: "LogLine list \<Rightarrow> LogLine list list \<Rightarrow> LogLine list" where
  "appendAll store [] = store"
| "appendAll store (batch # batches) = appendAll (appendLogs batch store) batches"

text \<open>
  The hook \<^verbatim>\<open>useLogStream\<close>: the store \<^verbatim>\<open>logs\<close>, the pending list
  \<^verbatim>\<open>pendingRef.current\<close>, whether a flush timer is armed
  (\<^verbatim>\<open>flushTimerRef.current !== null\<close>) and the flag \<^verbatim>\<open>disposed\<close> of the effect.
\<close>

record stream =
  logs :: "LogLine list"
  pending :: "LogLine list"
  flushTimer :: bool
  disposed :: bool

definition initial :: stream where
  "initial = \<lparr>logs = [], pending = [], flushTimer = False, disposed = False\<rparr>"

text \<open>
  What the event loop can run: the listener on a transport event, the timeout armed by
  \<^verbatim>\<open>scheduleFlush\<close>, the user's clear, and the cleanup of the effect. The transport
  may still deliver events between the cleanup and the completion of
  \<^verbatim>\<open>unlisten\<close>.
\<close>

datatype event = Log LogLine | Timeout | Clear | Cleanup

definition flushPending :: "stream \<Rightarrow> stream" where
  "flushPending s =
     (let s1 = s\<lparr>flushTimer := False\<rparr> in
      if disposed s1 \<or> length (pending s1) = 0 then s1
      else
        let batch = pending s1;
            s2 = s1\<lparr>pending := []\<rparr>
        in s2\<lparr>logs := appendLogs batch (logs s2)\<rparr>)"

definition scheduleFlush :: "stream \<Rightarrow> stream" where
  "scheduleFlush s = (if flushTimer s then s else s\<lparr>flushTimer := True\<rparr>)"

definition on_log :: "LogLine \<Rightarrow> stream \<Rightarrow> stream" where
  "on_log payload s =
     (if dir payload = str ''SYS'' then s
      else scheduleFlush (s\<lparr>pending := pending s @ [payload]\<rparr>))"

definition clear :: "stream \<Rightarrow> stream" where
  "clear s = (s\<lparr>pending := []\<rparr>)\<lparr>logs := []\<rparr>"

definition cleanup :: "stream \<Rightarrow> stream" where
  "cleanup s =
     (let s1 = (s\<lparr>disposed := True\<rparr>)\<lparr>pending := []\<rparr>
      in if flushTimer s1 then s1\<lparr>flushTimer := False\<rparr> else s1)"

text \<open>A timeout runs \<^verbatim>\<open>flushPending\<close> only when one is armed.\<close>

fun step :: "stream \<Rightarrow> event \<Rightarrow> stream" where
  "step s (Log payload) = on_log payload s"
| "step s Timeout = (if flushTimer s then flushPending s else s)"
| "step s Clear = clear s"
| "step s Cleanup = cleanup s"

fun run :: "stream \<Rightarrow> event list \<Rightarrow> stream" where
  "run s [] = s"
| "run s (e # es) = run (step s e) es"

text \<open>The frames the transport delivers in a sequence of events, in order.\<close>

fun arrivals :: "event list \<Rightarrow> LogLine list" where
  "arrivals [] = []"
| "arrivals (Log payload # es) = payload # arrivals es"
| "arrivals (_ # es) = arrivals es"

text \<open>
  The hook \<^verbatim>\<open>useLogFeed\<close> of the single-file application variant: every event is
  appended to the store at once, and clear empties it.
\<close>

definition feed_on_log :: "LogLine \<Rightarrow> LogLine list \<Rightarrow> LogLine list" where
  "feed_on_log payload prev = prev @ [payload]"

definition feed_clear :: "LogLine list \<Rightarrow> LogLine list" where
  "feed_clear prev = []"

fun feed_step :: "LogLine list \<Rightarrow> event \<Rightarrow> LogLine list" where
  "feed_step prev (Log payload) = feed_on_log payload prev"
| "feed_step prev Clear = feed_clear prev"
| "feed_step prev _ = prev"

fun feed_run :: "LogLine list \<Rightarrow> event list \<Rightarrow> LogLine list" where
  "feed_run prev [] = prev"
| "feed_run prev (e # es) = feed_run (feed_step prev e) es"

text \<open>A frame for the examples, with the given direction, text and connection.\<close>

definition line :: "string \<Rightarrow> string \<Rightarrow> string \<Rightarrow> LogLine" where
  "line d t c =
     \<lparr>when_iso = str ''2026-01-01T00:00:00.000Z'', interval_ms = 0, dir = str d,
      origin = str ''serial'', line_text = str t, raw = map of_char t, connId = str c\<rparr>"

text \<open>The most recent \<open>n\<close> elements of a sequence, in their order.\<close>

definition most_recent :: "nat \<Rightarrow> 'a list \<Rightarrow> 'a list" where
  "most_recent n xs = drop (length xs - n) xs"

subsection \<open>Host string operations\<close>

text \<open>
  \<^verbatim>\<open>String.prototype.replaceAll(pattern, replacement)\<close> with a string pattern: the
  occurrences are found from left to right and do not overlap; the empty pattern matches
  before every code unit and at the end. The replacements of the sources contain no
  \<^verbatim>\<open>$\<close>, so no substitution pattern is expanded.
\<close>

function replaceAll :: "'a list \<Rightarrow> 'a list \<Rightarrow> 'a list \<Rightarrow> 'a list" where
  "replaceAll pat rep [] = (if pat = [] then rep else [])"
| "replaceAll pat rep (c # cs) =
     (if pat = [] then rep @ c # replaceAll pat rep cs
      else if prefix pat (c # cs) then rep @ replaceAll pat rep (drop (length pat) (c # cs))
      else c # replaceAll pat rep cs)"
  by pat_completeness auto
termination
  by (relation "measure (\<lambda>(pat, rep, s). length s)") (auto simp: neq_Nil_conv)

text \<open>\<^verbatim>\<open>String.prototype.includes(searchString)\<close>: an occurrence at some position.\<close>

fun js_includes :: "'a list \<Rightarrow> 'a list \<Rightarrow> bool" where
  "js_includes [] f = (f = [])"
| "js_includes (c # cs) f = (prefix f (c # cs) \<or> js_includes cs f)"

text \<open>
  \<^verbatim>\<open>Number.prototype.toString(16)\<close> of an integer: the digits come from
  \<^verbatim>\<open>0123456789abcdefghijklmnopqrstuvwxyz\<close>, a negative number has a minus sign.
\<close>

function hexDigits :: "nat \<Rightarrow> jsstring" where
  "hexDigits n =
     (if n < 16 then [str ''0123456789abcdefghijklmnopqrstuvwxyz'' ! n]
      else hexDigits (n div 16) @ [str ''0123456789abcdefghijklmnopqrstuvwxyz'' ! (n mod 16)])"
  by pat_completeness auto
termination
  by (relation "measure id") auto

declare hexDigits.simps [simp del]

definition toString16 :: "int \<Rightarrow> jsstring" where
  "toString16 i = (if i < 0 then 0x2D # hexDigits (nat (- i)) else hexDigits (nat i))"

text \<open>
  \<^verbatim>\<open>toUpperCase\<close> on the letters \<^verbatim>\<open>a\<close> to \<^verbatim>\<open>z\<close>; every other code unit is kept. This
  is what the host does on ASCII strings, which the output of \<^verbatim>\<open>toString(16)\<close> and the
  origin tags of the transport are.
\<close>

definition toUpperCase :: "jsstring \<Rightarrow> jsstring" where
  "toUpperCase s = map (\<lambda>c. if 0x61 \<le> c \<and> c \<le> 0x7A then c - 0x20 else c) s"

text \<open>\<^verbatim>\<open>padStart(targetLength, padString)\<close>.\<close>

definition padStart :: "nat \<Rightarrow> jsstring \<Rightarrow> jsstring \<Rightarrow> jsstring" where
  "padStart n pad s =
     (if n \<le> length s \<or> pad = [] then s
      else take (n - length s) (concat (replicate (n - length s) pad)) @ s)"

text \<open>\<^verbatim>\<open>Array.prototype.join(separator)\<close> on an array of strings.\<close>

fun join :: "jsstring \<Rightarrow> jsstring list \<Rightarrow> jsstring" where
  "join sep [] = []"
| "join sep [x] = x"
| "join sep (x # y # ys) = x @ sep @ join sep (y # ys)"

text \<open>
  The class \<^verbatim>\<open>\s\<close> of a regular expression, which is also what \<^verbatim>\<open>trim\<close> removes: white
  space and line terminators.
\<close>

definition isSpace :: "16 word \<Rightarrow> bool" where
  "isSpace c \<longleftrightarrow>
     c \<in> {0x09, 0x0A, 0x0B, 0x0C, 0x0D, 0x20, 0xA0, 0x1680, 0x2028, 0x2029, 0x202F,
          0x205F, 0x3000, 0xFEFF}
     \<or> (0x2000 \<le> c \<and> c \<le> 0x200A)"

text \<open>\<^verbatim>\<open>source.replace(/\s+/g, ' ')\<close>: every maximal run of white space becomes one space.\<close>

function collapse_spaces :: "jsstring \<Rightarrow> jsstring" where
  "collapse_spaces [] = []"
| "collapse_spaces (c # cs) =
     (if isSpace c then 0x20 # collapse_spaces (dropWhile isSpace cs)
      else c # collapse_spaces cs)"
  by pat_completeness auto
termination
  by (relation "measure length") (auto simp: le_imp_less_Suc length_dropWhile_le)

definition trim :: "jsstring \<Rightarrow> jsstring" where
  "trim s = rev (dropWhile isSpace (rev (dropWhile isSpace s)))"

subsection \<open>The payload formatters\<close>

datatype ViewMode = ascii | hex

text \<open>
  The markers of \<^verbatim>\<open>formatPayload\<close>: the symbols U+23CE, U+240A and U+240D followed by
  the name of the line ending and a space.
\<close>

definition CRLF_marker :: jsstring where
  "CRLF_marker = 0x23CE # str ''CRLF ''"

definition LF_marker :: jsstring where
  "LF_marker = 0x240A # str ''LF ''"

definition CR_marker :: jsstring where
  "CR_marker = 0x240D # str ''CR ''"

text \<open>\<^verbatim>\<open>formatPayload(raw, mode, text)\<close> of \<^verbatim>\<open>lib/format.ts\<close>.\<close>

definition formatPayload :: "int list \<Rightarrow> ViewMode \<Rightarrow> jsstring \<Rightarrow> jsstring" where
  "formatPayload raw_bytes mode t =
     (if mode = hex
      then join (str '' '')
             (map (\<lambda>byte. padStart 2 (str ''0'') (toUpperCase (toString16 byte))) raw_bytes)
      else replaceAll [0x0D] CR_marker
             (replaceAll [0x0A] LF_marker
               (replaceAll [0x0D, 0x0A] CRLF_marker t)))"

text \<open>
  \<^verbatim>\<open>detailText\<close> of \<^verbatim>\<open>LogView\<close>, the ASCII text of the detail pane: the selected frame
  may be undefined. Its markers are the escapes \<^verbatim>\<open>\r\n\<close> and \<^verbatim>\<open>\n\<close>, each followed by a
  line feed, and \<^verbatim>\<open>\r\<close>; the code unit \<open>0x5C\<close> is the backslash.
\<close>

definition detail_CRLF_marker :: jsstring where
  "detail_CRLF_marker = [0x5C, 0x72, 0x5C, 0x6E, 0x0A]"

definition detail_LF_marker :: jsstring where
  "detail_LF_marker = [0x5C, 0x6E, 0x0A]"

definition detail_CR_marker :: jsstring where
  "detail_CR_marker = [0x5C, 0x72]"

definition detailText :: "LogLine option \<Rightarrow> jsstring" where
  "detailText selected =
     (case selected of
        Some l \<Rightarrow>
          replaceAll [0x0D] detail_CR_marker
            (replaceAll [0x0A] detail_LF_marker
              (replaceAll [0x0D, 0x0A] detail_CRLF_marker (line_text l)))
      | None \<Rightarrow> [])"

subsection \<open>The row window of \<^verbatim>\<open>LogView\<close>\<close>

definition ROW_HEIGHT_PX :: real where
  "ROW_HEIGHT_PX = 28"

definition HEADER_HEIGHT_PX :: real where
  "HEADER_HEIGHT_PX = 30"

definition OVERSCAN_ROWS :: int where
  "OVERSCAN_ROWS = 12"

text \<open>
  The state \<^verbatim>\<open>viewportHeight\<close> is the client height of the table wrapper and
  \<^verbatim>\<open>scrollTop\<close> its scroll offset, both in pixels.
\<close>

definition bodyHeight :: "real \<Rightarrow> real" where
  "bodyHeight viewportHeight = max (viewportHeight - HEADER_HEIGHT_PX) (ROW_HEIGHT_PX * 10)"

definition visibleStart :: "real \<Rightarrow> int" where
  "visibleStart scrollTop = max 0 (\<lfloor>scrollTop / ROW_HEIGHT_PX\<rfloor> - OVERSCAN_ROWS)"

definition visibleEnd :: "nat \<Rightarrow> real \<Rightarrow> real \<Rightarrow> int" where
  "visibleEnd totalRows scrollTop viewportHeight =
     min (int totalRows)
       (\<lceil>(scrollTop + bodyHeight viewportHeight) / ROW_HEIGHT_PX\<rceil> + OVERSCAN_ROWS)"

definition makePreview :: "jsstring \<Rightarrow> jsstring" where
  "makePreview source = take 120 (trim (collapse_spaces source))"

record row =
  row_id :: int
  row_index :: int
  row_when :: jsstring
  row_dir :: jsstring
  row_origin :: jsstring
  row_bytes :: nat
  row_preview :: jsstring

text \<open>
  The loop of \<^verbatim>\<open>visibleRows\<close>: an index without a frame is skipped.
\<close>

definition visibleRows :: "LogLine list \<Rightarrow> ViewMode \<Rightarrow> int \<Rightarrow> int \<Rightarrow> row list" where
  "visibleRows lines viewMode vStart vEnd =
     concat (map (\<lambda>index.
         if 0 \<le> index \<and> index < int (length lines) then
           let l = lines ! nat index in
           [\<lparr>row_id = index + 1, row_index = index, row_when = when_iso l, row_dir = dir l,
             row_origin = toUpperCase (origin l), row_bytes = length (raw l),
             row_preview = makePreview (formatPayload (raw l) viewMode (line_text l))\<rparr>]
         else [])
       [vStart..vEnd - 1])"

definition topSpacerHeight :: "real \<Rightarrow> real" where
  "topSpacerHeight scrollTop = real_of_int (visibleStart scrollTop) * ROW_HEIGHT_PX"

definition bottomSpacerHeight :: "nat \<Rightarrow> real \<Rightarrow> real \<Rightarrow> real" where
  "bottomSpacerHeight totalRows scrollTop viewportHeight =
     max 0 (real_of_int (int totalRows - visibleEnd totalRows scrollTop viewportHeight)
            * ROW_HEIGHT_PX)"

text \<open>The rows \<^verbatim>\<open>LogView\<close> renders for its props and its scroll state.\<close>

definition LogView_rows :: "LogLine list \<Rightarrow> ViewMode \<Rightarrow> real \<Rightarrow> real \<Rightarrow> row list" where
  "LogView_rows lines viewMode scrollTop viewportHeight =
     visibleRows lines viewMode (visibleStart scrollTop)
       (visibleEnd (length lines) scrollTop viewportHeight)"

subsection \<open>The filter of the single-file application variant\<close>

text \<open>
  The regular expressions are the host's. \<open>compile pattern flags\<close> is
  \<^verbatim>\<open>new RegExp(pattern, flags)\<close>, \<open>None\<close> where it throws a syntax error;
  \<open>test re s\<close> is \<^verbatim>\<open>re.test(s)\<close> and returns the object as the call leaves it, since
  a global expression keeps its \<^verbatim>\<open>lastIndex\<close>.
\<close>

fun filter_test :: "('r \<Rightarrow> jsstring \<Rightarrow> bool \<times> 'r) \<Rightarrow> 'r \<Rightarrow> LogLine list \<Rightarrow> LogLine list" where
  "filter_test test re [] = []"
| "filter_test test re (l # ls) =
     (case test re (line_text l) of
        (ok, re') \<Rightarrow> (if ok then [l] else []) @ filter_test test re' ls)"

text \<open>The memo \<^verbatim>\<open>filtered\<close> of \<^verbatim>\<open>App\<close>.\<close>

definition filtered ::
  "(jsstring \<Rightarrow> jsstring \<Rightarrow> 'r option) \<Rightarrow> ('r \<Rightarrow> jsstring \<Rightarrow> bool \<times> 'r) \<Rightarrow>
   LogLine list \<Rightarrow> jsstring \<Rightarrow> bool \<Rightarrow> jsstring \<Rightarrow> LogLine list" where
  "filtered compile test lines flt useRegex activeConnId =
     (let result = filter (\<lambda>l. connId l = activeConnId \<or> activeConnId = str ''all'') lines in
      if flt = [] then result
      else if useRegex then
        (case compile flt (str ''i'') of
           Some re \<Rightarrow> filter_test test re result
         | None \<Rightarrow> result)
      else filter (\<lambda>l. js_includes (line_text l) flt) result)"

text \<open>
  \<^verbatim>\<open>renderLogs\<close>: for each frame \<open>None\<close> where the source returns \<^verbatim>\<open>null\<close>, and the text
  it shows where the source returns an element; the markup around the text is left out.
\<close>

fun render_rows ::
  "('r \<Rightarrow> jsstring \<Rightarrow> bool \<times> 'r) \<Rightarrow> 'r option \<Rightarrow> jsstring \<Rightarrow> ViewMode \<Rightarrow> LogLine list \<Rightarrow>
   jsstring option list" where
  "render_rows test filterRe flt view [] = []"
| "render_rows test filterRe flt view (l # ls) =
     (let t = (if view = ascii then line_text l else formatPayload (raw l) hex []) in
      if flt = [] then Some t # render_rows test filterRe flt view ls
      else
        (case filterRe of
           Some re \<Rightarrow>
             (case test re t of
                (ok, re') \<Rightarrow> (if ok then Some t else None) # render_rows test (Some re') flt view ls)
         | None \<Rightarrow>
             (if js_includes t flt then Some t else None) # render_rows test None flt view ls))"

definition renderLogs ::
  "(jsstring \<Rightarrow> jsstring \<Rightarrow> 'r option) \<Rightarrow> ('r \<Rightarrow> jsstring \<Rightarrow> bool \<times> 'r) \<Rightarrow>
   LogLine list \<Rightarrow> ViewMode \<Rightarrow> jsstring \<Rightarrow> bool \<Rightarrow> jsstring option list" where
  "renderLogs compile test lines view flt useRegex =
     (let filterRe = (if useRegex \<and> flt \<noteq> [] then compile flt (str ''gi'') else None)
      in render_rows test filterRe flt view lines)"

subsection \<open>The settings of \<^verbatim>\<open>lib/settings.ts\<close>\<close>

text \<open>
  What \<^verbatim>\<open>JSON.parse\<close> returns. An object is the list of its own properties, in the order
  of their creation.
\<close>

datatype json =
    JNull
  | JBool bool
  | JNum real
  | JStr jsstring
  | JArr "json list"
  | JObj "(jsstring \<times> json) list"

datatype js_error = SyntaxError | TypeError | SecurityError | QuotaExceededError

definition SETTINGS_KEY :: jsstring where
  "SETTINGS_KEY = str ''wirescope_settings_v2''"

definition defaultSerial :: "(jsstring \<times> json) list" where
  "defaultSerial =
     [(str ''baud'', JNum 115200), (str ''dataBits'', JNum 8), (str ''parity'', JStr (str ''none'')),
      (str ''stopBits'', JNum 1), (str ''flow'', JStr (str ''none'')),
      (str ''append'', JStr (str ''lf''))]"

definition defaultSocket :: "(jsstring \<times> json) list" where
  "defaultSocket =
     [(str ''host'', JStr (str ''127.0.0.1'')), (str ''port'', JNum 12345),
      (str ''proto'', JStr (str ''tcp'')), (str ''append'', JStr (str ''lf''))]"

definition defaultSettings :: json where
  "defaultSettings =
     JObj [(str ''mode'', JStr (str ''serial'')), (str ''viewMode'', JStr (str ''ascii'')),
           (str ''serial'', JObj defaultSerial), (str ''socket'', JObj defaultSocket)]"

text \<open>The decimal name of an array index.\<close>

function decimal :: "nat \<Rightarrow> jsstring" where
  "decimal n =
     (if n < 10 then [str ''0123456789'' ! n]
      else decimal (n div 10) @ [str ''0123456789'' ! (n mod 10)])"
  by pat_completeness auto
termination
  by (relation "measure id") auto

declare decimal.simps [simp del]

text \<open>
  The own enumerable properties an object spread \<^verbatim>\<open>{...v}\<close> copies: those of an object,
  the elements of an array and the code units of a string under their indices, and none
  of \<^verbatim>\<open>null\<close>, a boolean or a number.
\<close>

fun ownProps :: "json \<Rightarrow> (jsstring \<times> json) list" where
  "ownProps (JObj kvs) = kvs"
| "ownProps (JArr xs) = zip (map decimal [0..<length xs]) xs"
| "ownProps (JStr s) = zip (map decimal [0..<length s]) (map (\<lambda>c. JStr [c]) s)"
| "ownProps _ = []"

text \<open>
  The object literal \<^verbatim>\<open>{ ...a, ...b }\<close>: the properties of \<open>a\<close>, overwritten and extended
  by those of \<open>b\<close>.
\<close>

definition spread :: "(jsstring \<times> json) list \<Rightarrow> (jsstring \<times> json) list \<Rightarrow> (jsstring \<times> json) list" where
  "spread a b = AList.merge a b"

text \<open>The own property \<open>k\<close> of a value, \<open>None\<close> for \<^verbatim>\<open>undefined\<close>.\<close>

definition field :: "json \<Rightarrow> jsstring \<Rightarrow> json option" where
  "field v k = map_of (ownProps v) k"

text \<open>
  The read \<^verbatim>\<open>parsed.serial\<close>: a type error on \<^verbatim>\<open>null\<close>. The names read here are no
  property of a prototype.
\<close>

definition getProp :: "json \<Rightarrow> jsstring \<Rightarrow> js_error + json option" where
  "getProp v k = (case v of JNull \<Rightarrow> Inl TypeError | _ \<Rightarrow> Inr (field v k))"

text \<open>\<^verbatim>\<open>x ?? {}\<close>.\<close>

definition orEmpty :: "json option \<Rightarrow> json" where
  "orEmpty x = (case x of None \<Rightarrow> JObj [] | Some JNull \<Rightarrow> JObj [] | Some v \<Rightarrow> v)"

text \<open>
  \<^verbatim>\<open>loadSettings()\<close>. \<open>getItem\<close> is \<^verbatim>\<open>localStorage.getItem\<close>, which returns a string or
  \<^verbatim>\<open>null\<close> or throws where the storage is not available; \<open>parse\<close> is \<^verbatim>\<open>JSON.parse\<close>,
  \<open>None\<close> where it throws a syntax error. Every exception ends in the \<^verbatim>\<open>catch\<close>.
\<close>

definition loadSettings ::
  "(jsstring \<Rightarrow> js_error + jsstring option) \<Rightarrow> (jsstring \<Rightarrow> json option) \<Rightarrow> json" where
  "loadSettings getItem parse =
     (case getItem SETTINGS_KEY of
        Inl e \<Rightarrow> defaultSettings
      | Inr None \<Rightarrow> defaultSettings
      | Inr (Some raw_text) \<Rightarrow>
          if raw_text = [] then defaultSettings
          else
            (case parse raw_text of
               None \<Rightarrow> defaultSettings
             | Some parsed \<Rightarrow>
                 (case getProp parsed (str ''serial'') of
                    Inl e \<Rightarrow> defaultSettings
                  | Inr parsed_serial \<Rightarrow>
                      (case getProp parsed (str ''socket'') of
                         Inl e \<Rightarrow> defaultSettings
                       | Inr parsed_socket \<Rightarrow>
                           JObj (spread
                             (spread (ownProps defaultSettings) (ownProps parsed))
                             [(str ''serial'',
                                 JObj (spread defaultSerial (ownProps (orEmpty parsed_serial)))),
                              (str ''socket'',
                                 JObj (spread defaultSocket (ownProps (orEmpty parsed_socket))))])))))"

text \<open>
  \<^verbatim>\<open>saveSettings(settings)\<close> on a storage \<open>st\<close>: \<open>stringify\<close> is \<^verbatim>\<open>JSON.stringify\<close> and
  \<open>setItem\<close> is \<^verbatim>\<open>localStorage.setItem\<close>, and both may throw. The result is \<open>Inl\<close> for an
  exception that leaves the function and \<open>Inr\<close> of the storage otherwise.
\<close>

definition saveSettings ::
  "(json \<Rightarrow> js_error + jsstring) \<Rightarrow> (jsstring \<Rightarrow> jsstring \<Rightarrow> 'st \<Rightarrow> js_error + 'st) \<Rightarrow>
   json \<Rightarrow> 'st \<Rightarrow> js_error + 'st" where
  "saveSettings stringify setItem settings st =
     (case (case stringify settings of
              Inl e \<Rightarrow> Inl e
            | Inr s \<Rightarrow> setItem SETTINGS_KEY s st) of
        Inl e \<Rightarrow> Inr st
      | Inr st' \<Rightarrow> Inr st')"

text \<open>A nested field \<^verbatim>\<open>v.g.k\<close>.\<close>

definition field2 :: "json \<Rightarrow> jsstring \<Rightarrow> jsstring \<Rightarrow> json option" where
  "field2 v g k = (case field v g of None \<Rightarrow> None | Some w \<Rightarrow> field w k)"

subsection \<open>Reference definitions\<close>

text \<open>
  The ASCII formatting as one scan from left to right: a carriage return followed by a
  line feed gives the CRLF marker, any other line feed the LF marker, any other carriage
  return the CR marker.
\<close>

fun mark_line_endings :: "jsstring \<Rightarrow> jsstring" where
  "mark_line_endings [] = []"
| "mark_line_endings [c] =
     (if c = 0x0D then CR_marker else if c = 0x0A then LF_marker else [c])"
| "mark_line_endings (c # d # ds) =
     (if c = 0x0D \<and> d = 0x0A then CRLF_marker @ mark_line_endings ds
      else if c = 0x0D then CR_marker @ mark_line_endings (d # ds)
      else if c = 0x0A then LF_marker @ mark_line_endings (d # ds)
      else c # mark_line_endings (d # ds))"

text \<open>The second and the third pass of \<^verbatim>\<open>formatPayload\<close> in ASCII mode.\<close>

definition lone_passes :: "jsstring \<Rightarrow> jsstring" where
  "lone_passes s = replaceAll [0x0D] CR_marker (replaceAll [0x0A] LF_marker s)"

text \<open>The upper-case hexadecimal digit of a value below 16, and the value of such a digit.\<close>

definition upper_hex_digit :: "nat \<Rightarrow> 16 word" where
  "upper_hex_digit d = str ''0123456789ABCDEF'' ! d"

definition hex_value :: "16 word \<Rightarrow> int option" where
  "hex_value c =
     (if 0x30 \<le> c \<and> c \<le> 0x39 then Some (uint c - 0x30)
      else if 0x41 \<le> c \<and> c \<le> 0x46 then Some (uint c - 0x41 + 10)
      else None)"

text \<open>
  Reading a hex dump back: pairs of upper-case hexadecimal digits with one space between
  two pairs; anything else is refused.
\<close>

fun parse_hex_pairs :: "jsstring \<Rightarrow> int list option" where
  "parse_hex_pairs [] = Some []"
| "parse_hex_pairs [a, b] =
     (case (hex_value a, hex_value b) of
        (Some x, Some y) \<Rightarrow> Some [16 * x + y]
      | _ \<Rightarrow> None)"
| "parse_hex_pairs (a # b # sp # rest) =
     (if sp = 0x20 \<and> rest \<noteq> [] then
        (case (hex_value a, hex_value b, parse_hex_pairs rest) of
           (Some x, Some y, Some bytes) \<Rightarrow> Some ((16 * x + y) # bytes)
         | _ \<Rightarrow> None)
      else None)"
| "parse_hex_pairs _ = None"

text \<open>
  A substring test that ignores the case of the letters \<^verbatim>\<open>A\<close> to \<^verbatim>\<open>Z\<close>, as the
  specification words the plain-text filter.
\<close>

definition toLowerCase :: "jsstring \<Rightarrow> jsstring" where
  "toLowerCase s = map (\<lambda>c. if 0x41 \<le> c \<and> c \<le> 0x5A then c + 0x20 else c) s"

definition includes_ignoring_case :: "jsstring \<Rightarrow> jsstring \<Rightarrow> bool" where
  "includes_ignoring_case s f = js_includes (toLowerCase s) (toLowerCase f)"

text \<open>The frames of the active connection, as \<^verbatim>\<open>filtered\<close> selects them first.\<close>

definition in_scope :: "jsstring \<Rightarrow> LogLine \<Rightarrow> bool" where
  "in_scope activeConnId l \<longleftrightarrow> connId l = activeConnId \<or> activeConnId = str ''all''"

subsection \<open>Properties of the bounded store\<close>

lemma most_recent_all: "length xs \<le> n \<Longrightarrow> most_recent n xs = xs"
  by (simp add: most_recent_def)

lemma length_most_recent: "length (most_recent n xs) = min (length xs) n"
  by (simp add: most_recent_def)

lemma most_recent_append:
  "most_recent n (most_recent n xs @ ys) = most_recent n (xs @ ys)"
proof (cases "length xs \<le> n")
  case True
  then show ?thesis by (simp add: most_recent_def)
next
  case False
  then have "length xs + length ys - (length xs - n + n) + (length xs - n)
      = length xs + length ys - n"
    by arith
  then show ?thesis by (simp add: most_recent_def)
qed

lemma appendLogs_nonempty:
  assumes "incoming \<noteq> []"
  shows "appendLogs incoming previous = most_recent 6000 (previous @ incoming)"
proof -
  let ?p = "length previous" and ?i = "length incoming"
  consider (fits) "?p + ?i \<le> 6000"
    | (all_new) "?p + ?i > 6000" "?i \<ge> 6000"
    | (mixed) "?p + ?i > 6000" "?i < 6000"
    by linarith
  then show ?thesis
  proof cases
    case fits
    with assms show ?thesis
      by (simp add: appendLogs_def MAX_LOG_LINES_def most_recent_def)
  next
    case all_new
    with assms show ?thesis
      by (simp add: appendLogs_def MAX_LOG_LINES_def most_recent_def slice_from_def
          Let_def nat_diff_distrib')
  next
    case mixed
    with assms show ?thesis
      by (simp add: appendLogs_def MAX_LOG_LINES_def most_recent_def slice_from_def
          Let_def nat_diff_distrib' nat_add_distrib)
  qed
qed

lemma appendLogs_empty: "appendLogs [] previous = previous"
  by (simp add: appendLogs_def)

lemma appendLogs_bounded:
  "length previous \<le> 6000 \<Longrightarrow> appendLogs incoming previous = most_recent 6000 (previous @ incoming)"
  by (cases "incoming = []") (simp_all add: appendLogs_empty appendLogs_nonempty most_recent_all)

lemma appendAll_bounded:
  "length store \<le> 6000 \<Longrightarrow> appendAll store batches = most_recent 6000 (store @ concat batches)"
proof (induction batches arbitrary: store)
  case Nil
  then show ?case by (simp add: most_recent_all)
next
  case (Cons b bs)
  have "length (appendLogs b store) \<le> 6000"
    using Cons.prems by (simp add: appendLogs_bounded length_most_recent)
  then have "appendAll (appendLogs b store) bs = most_recent 6000 (appendLogs b store @ concat bs)"
    by (rule Cons.IH)
  also have "\<dots> = most_recent 6000 ((store @ b) @ concat bs)"
    using Cons.prems by (simp only: appendLogs_bounded most_recent_append)
  finally show ?case by simp
qed

lemma appendAll_all_empty: "concat batches = [] \<Longrightarrow> appendAll store batches = store"
  by (induction batches arbitrary: store) (simp_all add: appendLogs_empty)

lemma appendAll_some_nonempty:
  "concat batches \<noteq> [] \<Longrightarrow> appendAll store batches = most_recent 6000 (store @ concat batches)"
proof (induction batches arbitrary: store)
  case Nil
  then show ?case by simp
next
  case (Cons b bs)
  show ?case
  proof (cases "b = []")
    case True
    with Cons show ?thesis by (simp add: appendLogs_empty)
  next
    case False
    have "length (most_recent 6000 (store @ b)) \<le> 6000"
      by (simp add: length_most_recent)
    then have "appendAll (most_recent 6000 (store @ b)) bs
        = most_recent 6000 (most_recent 6000 (store @ b) @ concat bs)"
      by (rule appendAll_bounded)
    then show ?thesis
      using False by (simp add: appendLogs_nonempty most_recent_append)
  qed
qed

lemma suffix_most_recent: "suffix (most_recent n xs) xs"
  by (simp add: most_recent_def suffix_drop)

lemma suffix_appendLogs: "suffix (appendLogs incoming previous) (previous @ incoming)"
  by (cases "incoming = []") (simp_all add: appendLogs_empty appendLogs_nonempty suffix_most_recent)

text \<open>
  C1. Starting from the empty store, after any sequence of appends the store holds at
  most \<open>MAX_LOG_LINES = 6000\<close> frames, and it holds exactly the most recent
  \<open>min total 6000\<close> of the \<open>total\<close> frames appended so far, in their arrival order.
  The batches are arbitrary, so the statement holds after each append of a longer
  sequence as well.
\<close>

theorem appendLogs_keeps_most_recent:
  "length (appendAll [] batches) \<le> nat MAX_LOG_LINES \<and>
   appendAll [] batches
     = most_recent (min (length (concat batches)) (nat MAX_LOG_LINES)) (concat batches)"
proof -
  have "appendAll [] batches = most_recent 6000 (concat batches)"
    using appendAll_bounded [of "[]" batches] by simp
  moreover have "most_recent (min (length (concat batches)) 6000) (concat batches)
      = most_recent 6000 (concat batches)"
    by (simp add: most_recent_def min_def)
  ultimately show ?thesis
    by (simp add: MAX_LOG_LINES_def length_most_recent)
qed

theorem appendLogs_keeps_most_recent_witness:
  "length (appendAll [] [[line ''RX'' ''a'' ''main''], [line ''TX'' ''b'' ''main'']]) \<le> 6000 \<and>
   appendAll [] [[line ''RX'' ''a'' ''main''], [line ''TX'' ''b'' ''main'']]
     = [line ''RX'' ''a'' ''main'', line ''TX'' ''b'' ''main'']"
  using appendLogs_keeps_most_recent
    [of "[[line ''RX'' ''a'' ''main''], [line ''TX'' ''b'' ''main'']]"]
  by (simp add: most_recent_def MAX_LOG_LINES_def)

text \<open>
  C2. From any store, appending the batches one after the other leaves the same store as
  appending their concatenation once; the result is a suffix of the old store followed
  by the frames in batch order, so nothing is reordered or duplicated.
\<close>

theorem batching_is_concatenation:
  "appendAll store batches = appendLogs (concat batches) store \<and>
   suffix (appendAll store batches) (store @ concat batches)"
proof (cases "concat batches = []")
  case True
  then have "appendAll store batches = store"
    by (rule appendAll_all_empty)
  then show ?thesis
    by (simp only: True appendLogs_empty append_Nil2 suffix_order.refl simp_thms)
next
  case False
  then have "appendAll store batches = most_recent 6000 (store @ concat batches)"
    by (rule appendAll_some_nonempty)
  moreover have "appendLogs (concat batches) store = most_recent 6000 (store @ concat batches)"
    using False by (rule appendLogs_nonempty)
  ultimately show ?thesis
    by (simp only: suffix_most_recent simp_thms)
qed

theorem batching_is_concatenation_witness:
  "appendAll [line ''RX'' ''a'' ''main''] [[line ''TX'' ''b'' ''main''], [], [line ''RX'' ''c'' ''main'']]
     = appendLogs [line ''TX'' ''b'' ''main'', line ''RX'' ''c'' ''main''] [line ''RX'' ''a'' ''main'']"
  using batching_is_concatenation
    [of "[line ''RX'' ''a'' ''main'']" "[[line ''TX'' ''b'' ''main''], [], [line ''RX'' ''c'' ''main'']]"]
  by simp


subsection \<open>Properties of the stream: system frames and clear\<close>

lemma set_appendLogs: "set (appendLogs incoming previous) \<subseteq> set previous \<union> set incoming"
  using suffix_appendLogs [of incoming previous] set_mono_suffix by fastforce

lemma subseq_appendLogs: "subseq (appendLogs incoming previous) (previous @ incoming)"
  using suffix_appendLogs [of incoming previous] by (auto simp: suffix_def)

text \<open>Neither the store nor the pending list of \<^verbatim>\<open>useLogStream\<close> ever holds a system frame.\<close>

lemma step_no_SYS:
  assumes "str ''SYS'' \<notin> dir ` set (logs s)" and "str ''SYS'' \<notin> dir ` set (pending s)"
  shows "str ''SYS'' \<notin> dir ` set (logs (step s e)) \<and> str ''SYS'' \<notin> dir ` set (pending (step s e))"
proof (cases e)
  case (Log payload)
  with assms show ?thesis
    by (auto simp: on_log_def scheduleFlush_def)
next
  case Timeout
  have "set (appendLogs (pending s) (logs s)) \<subseteq> set (logs s) \<union> set (pending s)"
    by (rule set_appendLogs)
  with assms have "str ''SYS'' \<notin> dir ` set (appendLogs (pending s) (logs s))"
    by blast
  with assms Timeout show ?thesis
    by (simp add: flushPending_def Let_def)
next
  case Clear
  then show ?thesis by (simp add: clear_def)
next
  case Cleanup
  with assms show ?thesis by (simp add: cleanup_def Let_def)
qed

lemma run_no_SYS:
  "str ''SYS'' \<notin> dir ` set (logs s) \<Longrightarrow> str ''SYS'' \<notin> dir ` set (pending s) \<Longrightarrow>
   str ''SYS'' \<notin> dir ` set (logs (run s es)) \<and> str ''SYS'' \<notin> dir ` set (pending (run s es))"
proof (induction es arbitrary: s)
  case Nil
  then show ?case by simp
next
  case (Cons e es)
  from Cons.prems have "str ''SYS'' \<notin> dir ` set (logs (step s e)) \<and>
      str ''SYS'' \<notin> dir ` set (pending (step s e))"
    by (rule step_no_SYS)
  then show ?case using Cons.IH by simp
qed

lemma useLogStream_drops_SYS: "str ''SYS'' \<notin> dir ` set (logs (run initial es))"
  using run_no_SYS [of initial es] by (simp add: initial_def)

text \<open>
  C6. A frame whose direction is \<^verbatim>\<open>SYS\<close> never appears in the store. The listener of
  \<^verbatim>\<open>useLogStream\<close> drops such a frame before the pending list, as
  \<open>useLogStream_drops_SYS\<close> shows for every sequence of events. The hook
  \<^verbatim>\<open>useLogFeed\<close> has no such test: after one system event its store holds the frame.
\<close>

theorem useLogFeed_stores_SYS:
  "feed_run [] [Log (line ''SYS'' ''serial port opened'' ''main'')]
     = [line ''SYS'' ''serial port opened'' ''main''] \<and>
   dir (line ''SYS'' ''serial port opened'' ''main'') = str ''SYS'' \<and>
   logs (run initial [Log (line ''SYS'' ''serial port opened'' ''main''), Timeout]) = []"
  by (simp add: feed_on_log_def line_def initial_def on_log_def)

text \<open>What the store and the pending list hold came from the transport, in that order.\<close>

lemma subseq_step:
  assumes "subseq (logs s @ pending s) A"
  shows "subseq (logs (step s e) @ pending (step s e)) (A @ arrivals [e])"
proof (cases e)
  case (Log payload)
  have "subseq ((logs s @ pending s) @ [payload]) (A @ [payload])"
    using assms by (simp only: subseq_append)
  moreover have "subseq (logs s @ pending s) (A @ [payload])"
    using assms by (rule list_emb_prefix)
  ultimately show ?thesis using Log
    by (simp add: on_log_def scheduleFlush_def)
next
  case Timeout
  have "subseq (appendLogs (pending s) (logs s)) (logs s @ pending s)"
    by (rule subseq_appendLogs)
  then have "subseq (appendLogs (pending s) (logs s)) A"
    using assms by (rule subseq_order.trans)
  then show ?thesis using assms Timeout
    by (simp add: flushPending_def Let_def)
next
  case Clear
  then show ?thesis by (simp add: clear_def)
next
  case Cleanup
  have "subseq (logs s) (logs s @ pending s)"
    by (rule list_emb_prefix [OF subseq_order.refl])
  then have "subseq (logs s) A"
    using assms by (rule subseq_order.trans)
  then show ?thesis using Cleanup
    by (simp add: cleanup_def Let_def)
qed

lemma arrivals_Cons: "arrivals (e # es) = arrivals [e] @ arrivals es"
  by (cases e) simp_all

lemma subseq_run:
  "subseq (logs s @ pending s) A \<Longrightarrow>
   subseq (logs (run s es) @ pending (run s es)) (A @ arrivals es)"
proof (induction es arbitrary: s A)
  case Nil
  then show ?case by simp
next
  case (Cons e es)
  from Cons.prems have "subseq (logs (step s e) @ pending (step s e)) (A @ arrivals [e])"
    by (rule subseq_step)
  then have "subseq (logs (run (step s e) es) @ pending (run (step s e) es))
      ((A @ arrivals [e]) @ arrivals es)"
    by (rule Cons.IH)
  then show ?case
    by (simp add: arrivals_Cons [of e es])
qed

text \<open>
  C10. Clear empties the store and the pending list, whatever they held; a flush timer
  that fires next appends nothing; and after any further events the store is a
  subsequence of the frames that arrived after the clear, so no frame received before the
  clear, flushed or not, is in it.
\<close>

theorem clear_discards_unflushed:
  "logs (step s Clear) = [] \<and> pending (step s Clear) = [] \<and>
   logs (step (step s Clear) Timeout) = [] \<and>
   subseq (logs (run (step s Clear) es)) (arrivals es)"
proof -
  have "subseq (logs (step s Clear) @ pending (step s Clear)) []"
    by (simp add: clear_def)
  then have "subseq (logs (run (step s Clear) es) @ pending (run (step s Clear) es))
      ([] @ arrivals es)"
    by (rule subseq_run)
  moreover have "subseq (logs (run (step s Clear) es))
      (logs (run (step s Clear) es) @ pending (run (step s Clear) es))"
    by (rule list_emb_prefix [OF subseq_order.refl])
  ultimately have "subseq (logs (run (step s Clear) es)) (arrivals es)"
    using subseq_order.trans by fastforce
  then show ?thesis
    by (simp add: clear_def flushPending_def Let_def)
qed

theorem clear_discards_unflushed_witness:
  "pending (run initial [Log (line ''RX'' ''old'' ''main'')]) = [line ''RX'' ''old'' ''main''] \<and>
   subseq
     (logs (run (step (run initial [Log (line ''RX'' ''old'' ''main'')]) Clear)
        [Timeout, Log (line ''RX'' ''new'' ''main''), Timeout]))
     [line ''RX'' ''new'' ''main''] \<and>
   logs (run (step (run initial [Log (line ''RX'' ''old'' ''main'')]) Clear)
        [Timeout, Log (line ''RX'' ''new'' ''main''), Timeout])
     = [line ''RX'' ''new'' ''main'']"
  using clear_discards_unflushed
    [of "run initial [Log (line ''RX'' ''old'' ''main'')]"
        "[Timeout, Log (line ''RX'' ''new'' ''main''), Timeout]"]
  by (simp add: initial_def on_log_def scheduleFlush_def flushPending_def clear_def
      appendLogs_def MAX_LOG_LINES_def Let_def line_def str_def)

subsection \<open>Properties of the formatters\<close>

lemma replaceAll_single:
  "replaceAll [p] rep s = concat (map (\<lambda>c. if c = p then rep else [c]) s)"
  by (induction s) auto

lemma replaceAll_single_append:
  "replaceAll [p] rep (xs @ ys) = replaceAll [p] rep xs @ replaceAll [p] rep ys"
  by (simp add: replaceAll_single)

lemma lone_passes_append: "lone_passes (xs @ ys) = lone_passes xs @ lone_passes ys"
  by (simp add: lone_passes_def replaceAll_single_append)

lemma lone_passes_Nil: "lone_passes [] = []"
  by (simp add: lone_passes_def)

lemma lone_passes_Cons:
  "lone_passes (c # cs)
     = (if c = 0x0D then CR_marker else if c = 0x0A then LF_marker else [c]) @ lone_passes cs"
  by (simp add: lone_passes_def replaceAll_single LF_marker_def CR_marker_def str_def)

lemma lone_passes_CRLF_marker: "lone_passes CRLF_marker = CRLF_marker"
  by (simp add: lone_passes_def replaceAll_single CRLF_marker_def str_def)

lemma formatPayload_ascii_scan: "formatPayload raw_bytes ascii t = mark_line_endings t"
proof -
  have "lone_passes (replaceAll [0x0D, 0x0A] CRLF_marker t) = mark_line_endings t"
  proof (induction t rule: mark_line_endings.induct)
    case 1
    show ?case by (simp add: lone_passes_Nil)
  next
    case (2 c)
    show ?case by (simp add: lone_passes_Cons lone_passes_Nil)
  next
    case (3 c d ds)
    then show ?case
      by (simp add: lone_passes_Cons lone_passes_append lone_passes_CRLF_marker)
  qed
  then show ?thesis
    by (simp add: formatPayload_def lone_passes_def)
qed

lemma mark_line_endings_append:
  "\<not> (xs \<noteq> [] \<and> last xs = 0x0D \<and> ys \<noteq> [] \<and> hd ys = 0x0A) \<Longrightarrow>
   mark_line_endings (xs @ ys) = mark_line_endings xs @ mark_line_endings ys"
proof (induction xs rule: mark_line_endings.induct)
  case 1
  then show ?case by simp
next
  case (2 c)
  then show ?case by (cases ys) auto
next
  case (3 c d ds)
  then show ?case by (auto split: if_splits)
qed

text \<open>
  \<^verbatim>\<open>formatPayload\<close> in ASCII mode puts exactly the CRLF marker in the place of a
  carriage return followed by a line feed, wherever the pair stands, and formats the text
  before and after the pair on their own.
\<close>

lemma formatPayload_marks_CRLF:
  "formatPayload raw_bytes ascii (pre @ [0x0D, 0x0A] @ post)
     = formatPayload raw_bytes ascii pre @ CRLF_marker @ formatPayload raw_bytes ascii post"
proof -
  have "mark_line_endings (pre @ [0x0D, 0x0A] @ post)
      = mark_line_endings pre @ mark_line_endings ([0x0D, 0x0A] @ post)"
    by (rule mark_line_endings_append) simp
  then show ?thesis
    by (cases post) (simp_all add: formatPayload_ascii_scan)
qed

text \<open>
  C7. A carriage return followed by a line feed is shown as the one combined CRLF marker,
  never marked twice. \<^verbatim>\<open>formatPayload\<close> does so (\<open>formatPayload_marks_CRLF\<close>). The
  detail pane's \<^verbatim>\<open>detailText\<close> does not: its CRLF marker ends in a line feed, which the
  next pass replaces again, so the text of the pair is the escape \<^verbatim>\<open>\r\n\<close> followed by the
  whole LF marker, and not the CRLF marker.
\<close>

theorem detailText_marks_CRLF_twice:
  "detailText (Some (line ''RX'' ''OK'' ''main'' \<lparr>line_text := str ''OK'' @ [0x0D, 0x0A]\<rparr>))
     = str ''OK'' @ [0x5C, 0x72, 0x5C, 0x6E] @ detail_LF_marker \<and>
   detailText (Some (line ''RX'' ''OK'' ''main'' \<lparr>line_text := str ''OK'' @ [0x0D, 0x0A]\<rparr>))
     \<noteq> str ''OK'' @ detail_CRLF_marker \<and>
   formatPayload [] ascii (str ''OK'' @ [0x0D, 0x0A]) = str ''OK'' @ CRLF_marker"
  by (simp add: detailText_def detail_CRLF_marker_def detail_LF_marker_def detail_CR_marker_def
      formatPayload_def CRLF_marker_def LF_marker_def CR_marker_def line_def str_def)

text \<open>The hexadecimal formatting of one byte.\<close>

lemma below_16:
  "(d::nat) < 16 \<Longrightarrow> d \<in> {0, 1, 2, 3, 4, 5, 6, 7, 8, 9, 10, 11, 12, 13, 14, 15}"
  by simp arith

lemma upper_digit:
  assumes "d < 16"
  shows "toUpperCase [str ''0123456789abcdefghijklmnopqrstuvwxyz'' ! d] = [upper_hex_digit d]"
  using below_16 [OF assms] by (auto simp: toUpperCase_def upper_hex_digit_def str_def)

lemma hex_value_upper:
  assumes "d < 16"
  shows "hex_value (upper_hex_digit d) = Some (int d)"
  using below_16 [OF assms] by (auto simp: hex_value_def upper_hex_digit_def str_def)

lemma toUpperCase_append: "toUpperCase (xs @ ys) = toUpperCase xs @ toUpperCase ys"
  by (simp add: toUpperCase_def)

lemma hexDigits_small:
  "n < 16 \<Longrightarrow> hexDigits n = [str ''0123456789abcdefghijklmnopqrstuvwxyz'' ! n]"
  by (subst hexDigits.simps) simp

lemma hexDigits_large:
  "\<not> n < 16 \<Longrightarrow>
   hexDigits n = hexDigits (n div 16) @ [str ''0123456789abcdefghijklmnopqrstuvwxyz'' ! (n mod 16)]"
  by (subst hexDigits.simps) simp

lemma format_byte:
  assumes "0 \<le> b" "b \<le> 255"
  shows "padStart 2 (str ''0'') (toUpperCase (toString16 b))
    = [upper_hex_digit (nat b div 16), upper_hex_digit (nat b mod 16)]"
proof (cases "nat b < 16")
  case True
  then have "toUpperCase (toString16 b) = [upper_hex_digit (nat b)]"
    using assms by (simp add: toString16_def hexDigits_small upper_digit)
  then show ?thesis using True
    by (simp add: padStart_def str_def upper_hex_digit_def)
next
  case False
  then have hi: "nat b div 16 < 16" and lo: "nat b mod 16 < 16"
    using assms by auto
  have "toString16 b = hexDigits (nat b)"
    using assms by (simp add: toString16_def)
  also have "\<dots> = [str ''0123456789abcdefghijklmnopqrstuvwxyz'' ! (nat b div 16)]
      @ [str ''0123456789abcdefghijklmnopqrstuvwxyz'' ! (nat b mod 16)]"
    by (simp only: hexDigits_large [OF False] hexDigits_small [OF hi])
  finally have "toUpperCase (toString16 b)
      = [upper_hex_digit (nat b div 16), upper_hex_digit (nat b mod 16)]"
    using hi lo by (simp only: toUpperCase_append upper_digit) simp
  then show ?thesis
    by (simp add: padStart_def)
qed

lemma formatPayload_hex_pairs:
  assumes "\<forall>b\<in>set raw_bytes. 0 \<le> b \<and> b \<le> 255"
  shows "formatPayload raw_bytes hex t
    = join (str '' '')
        (map (\<lambda>b. [upper_hex_digit (nat b div 16), upper_hex_digit (nat b mod 16)]) raw_bytes)"
  using assms by (simp add: formatPayload_def format_byte cong: map_cong)

lemma byte_of_digits:
  "0 \<le> b \<Longrightarrow> 16 * int (nat b div 16) + int (nat b mod 16) = b"
  by (simp add: zdiv_int zmod_int)

lemma parse_hex_pairs_join:
  assumes "\<forall>b\<in>set bytes. 0 \<le> b \<and> b \<le> 255"
  shows "parse_hex_pairs (join (str '' '')
      (map (\<lambda>b. [upper_hex_digit (nat b div 16), upper_hex_digit (nat b mod 16)]) bytes))
    = Some bytes"
  using assms
proof (induction bytes rule: induct_list012)
  case 1
  then show ?case by simp
next
  case (2 b)
  then have "0 \<le> b" "b \<le> 255" by simp_all
  then show ?case
    by (simp add: hex_value_upper byte_of_digits)
next
  case (3 b c bs)
  then have b: "0 \<le> b" "b \<le> 255" by simp_all
  have rest: "parse_hex_pairs (join (str '' '')
      (map (\<lambda>b. [upper_hex_digit (nat b div 16), upper_hex_digit (nat b mod 16)]) (c # bs)))
      = Some (c # bs)"
    using 3 by simp
  have ne: "join (str '' '')
      (map (\<lambda>b. [upper_hex_digit (nat b div 16), upper_hex_digit (nat b mod 16)]) (c # bs)) \<noteq> []"
    by (cases bs) simp_all
  from b have hi: "nat b div 16 < 16" and lo: "nat b mod 16 < 16"
    by auto
  show ?case
    using b ne rest by (simp add: hex_value_upper [OF hi] hex_value_upper [OF lo] byte_of_digits str_def)
qed

text \<open>
  C8. For bytes between 0 and 255 the hex formatting is, byte after byte and in the order
  of the bytes, two upper-case hexadecimal digits (the high and the low half), with one
  space between two bytes; and reading the pairs of the produced string back gives the
  bytes again.
\<close>

theorem hex_round_trip:
  assumes "\<forall>b\<in>set raw_bytes. 0 \<le> b \<and> b \<le> 255"
  shows "formatPayload raw_bytes hex t
      = join (str '' '')
          (map (\<lambda>b. [upper_hex_digit (nat b div 16), upper_hex_digit (nat b mod 16)]) raw_bytes) \<and>
    parse_hex_pairs (formatPayload raw_bytes hex t) = Some raw_bytes"
  using assms by (simp add: formatPayload_hex_pairs parse_hex_pairs_join)

theorem hex_round_trip_witness:
  "formatPayload [0, 10, 255] hex [] = str ''00 0A FF'' \<and>
   parse_hex_pairs (formatPayload [0, 10, 255] hex []) = Some [0, 10, 255]"
proof -
  have h: "\<forall>b\<in>set [0, 10, 255 :: int]. 0 \<le> b \<and> b \<le> 255"
    by simp
  show ?thesis
    using hex_round_trip [OF h, of "[]"]
    by (simp add: upper_hex_digit_def str_def hex_value_def)
qed

subsection \<open>Properties of the row window\<close>

lemma visibleRows_indices_list:
  "\<forall>i\<in>set is. 0 \<le> i \<and> i < int (length lines) \<Longrightarrow>
   map row_index (concat (map (\<lambda>index.
         if 0 \<le> index \<and> index < int (length lines) then
           let l = lines ! nat index in
           [\<lparr>row_id = index + 1, row_index = index, row_when = when_iso l, row_dir = dir l,
             row_origin = toUpperCase (origin l), row_bytes = length (raw l),
             row_preview = makePreview (formatPayload (raw l) viewMode (line_text l))\<rparr>]
         else []) is)) = is"
  by (induction "is") (simp_all add: Let_def)

text \<open>Within the store, the rows built are those of the indices from the start to the end.\<close>

lemma visibleRows_indices:
  assumes "0 \<le> vStart" and "vEnd \<le> int (length lines)"
  shows "map row_index (visibleRows lines viewMode vStart vEnd) = [vStart..vEnd - 1]"
proof -
  have "\<forall>i\<in>set [vStart..vEnd - 1]. 0 \<le> i \<and> i < int (length lines)"
    using assms by auto
  then show ?thesis
    unfolding visibleRows_def by (rule visibleRows_indices_list)
qed

lemma window_start_560: "visibleStart 560 = 8"
  by (simp add: visibleStart_def ROW_HEIGHT_PX_def OVERSCAN_ROWS_def)

lemma window_end_300: "visibleEnd 1000 560 300 = 42"
  by (simp add: visibleEnd_def bodyHeight_def ROW_HEIGHT_PX_def HEADER_HEIGHT_PX_def
      OVERSCAN_ROWS_def)

lemma window_end_330: "visibleEnd 1000 560 330 = 43"
  by (simp add: visibleEnd_def bodyHeight_def ROW_HEIGHT_PX_def HEADER_HEIGHT_PX_def
      OVERSCAN_ROWS_def)

text \<open>
  C3, as the specification states it: with a viewport height of 300 the rows 8 to 42 are
  built and 26796 pixels are reserved after them. \<^verbatim>\<open>LogView\<close> takes the header's 30
  pixels off the viewport height first, so for the state \<^verbatim>\<open>viewportHeight = 300\<close> the
  window ends at 42, not at 43.
\<close>

theorem window_300_counterexample:
  "visibleEnd 1000 560 300 \<noteq> 43 \<and>
   map row_index (LogView_rows (replicate 1000 (line ''RX'' ''a'' ''main'')) ascii 560 300)
     \<noteq> [8..42] \<and>
   bottomSpacerHeight 1000 560 300 \<noteq> 26796"
proof -
  have "map row_index (LogView_rows (replicate 1000 (line ''RX'' ''a'' ''main'')) ascii 560 300)
      = [8..41]"
    using visibleRows_indices [of 8 42 "replicate 1000 (line ''RX'' ''a'' ''main'')" ascii]
    by (simp add: LogView_rows_def window_start_560 window_end_300)
  moreover have "length [8..41::int] \<noteq> length [8..42::int]"
    by simp
  ultimately have "map row_index
      (LogView_rows (replicate 1000 (line ''RX'' ''a'' ''main'')) ascii 560 300) \<noteq> [8..42]"
    by metis
  then show ?thesis
    by (simp add: window_end_300 bottomSpacerHeight_def ROW_HEIGHT_PX_def)
qed

text \<open>
  C3, amended. For 1000 rows of 28 pixels, an overscan of 12 rows and a scroll offset of
  560, the window starts at \<open>max 0 (\<lfloor>560 / 28\<rfloor> - 12) = 8\<close> and 224 pixels are reserved
  before it. The height of the body is the viewport height less the header's 30 pixels,
  and at least ten rows. For a viewport height of 300 the body is 280 high: the window
  ends at \<open>min 1000 (\<lceil>840 / 28\<rceil> + 12) = 42\<close>, exactly the rows 8 to 41 are built and
  \<open>(1000 - 42) * 28 = 26824\<close> pixels are reserved after them. The figures of the
  specification belong to a body height of 300, a viewport height of 330: the window ends
  at \<open>min 1000 (\<lceil>860 / 28\<rceil> + 12) = 43\<close>, exactly the rows 8 to 42 are built and 26796
  pixels are reserved after them.
\<close>

theorem window_example:
  assumes "length lines = 1000"
  shows "visibleStart 560 = 8 \<and> topSpacerHeight 560 = 224 \<and>
    bodyHeight 300 = 280 \<and>
    visibleEnd (length lines) 560 300 = 42 \<and>
    map row_index (LogView_rows lines viewMode 560 300) = [8..41] \<and>
    bottomSpacerHeight (length lines) 560 300 = 26824 \<and>
    bodyHeight 330 = 300 \<and>
    visibleEnd (length lines) 560 330 = 43 \<and>
    map row_index (LogView_rows lines viewMode 560 330) = [8..42] \<and>
    bottomSpacerHeight (length lines) 560 330 = 26796"
proof -
  have "map row_index (LogView_rows lines viewMode 560 300) = [8..41]"
    using visibleRows_indices [of 8 42 lines viewMode] assms
    by (simp add: LogView_rows_def window_start_560 window_end_300)
  moreover have "map row_index (LogView_rows lines viewMode 560 330) = [8..42]"
    using visibleRows_indices [of 8 43 lines viewMode] assms
    by (simp add: LogView_rows_def window_start_560 window_end_330)
  ultimately show ?thesis
    using assms
    by (simp add: window_start_560 window_end_300 window_end_330 topSpacerHeight_def
        bottomSpacerHeight_def bodyHeight_def ROW_HEIGHT_PX_def HEADER_HEIGHT_PX_def)
qed

theorem window_example_witness:
  "length (replicate 1000 (line ''RX'' ''a'' ''main'')) = 1000 \<and>
   map row_index (LogView_rows (replicate 1000 (line ''RX'' ''a'' ''main'')) hex 560 300) = [8..41] \<and>
   bottomSpacerHeight (length (replicate 1000 (line ''RX'' ''a'' ''main''))) 560 330 = 26796"
  using window_example [of "replicate 1000 (line ''RX'' ''a'' ''main'')" hex]
  by simp

subsection \<open>Properties of the filter\<close>

lemma js_includes_sublist: "js_includes s f \<longleftrightarrow> sublist f s"
  by (induction s) (simp_all add: sublist_Cons_right)

lemma filtered_plain:
  "flt \<noteq> [] \<Longrightarrow>
   filtered compile test lines flt False activeConnId
     = filter (\<lambda>l. in_scope activeConnId l \<and> sublist flt (line_text l)) lines"
  by (simp add: filtered_def in_scope_def js_includes_sublist conj_commute)

lemma render_rows_plain:
  "flt \<noteq> [] \<Longrightarrow>
   render_rows test None flt view lines
     = map (\<lambda>l. let t = (if view = ascii then line_text l else formatPayload (raw l) hex [])
                in if sublist flt t then Some t else None) lines"
  by (induction lines) (simp_all add: Let_def js_includes_sublist)

text \<open>
  C5, as the specification states it: without the regular expression a frame passes when
  the filter occurs in its text, the case of letters ignored. The frame with the text
  \<^verbatim>\<open>ABC\<close> holds the filter \<^verbatim>\<open>abc\<close> in that sense, and \<^verbatim>\<open>filtered\<close> drops it.
\<close>

theorem filtered_case_counterexample:
  "includes_ignoring_case (line_text (line ''RX'' ''ABC'' ''main'')) (str ''abc'') \<and>
   filtered (\<lambda>pattern flags. None :: unit option) (\<lambda>re s. (True, re))
     [line ''RX'' ''ABC'' ''main''] (str ''abc'') False (str ''main'') = []"
  by (simp add: includes_ignoring_case_def toLowerCase_def filtered_def line_def str_def)

text \<open>
  C5, amended. With a filter text that is not empty and without the regular expression,
  a frame of the active connection passes \<^verbatim>\<open>filtered\<close> if and only if the filter text
  occurs in the frame's text as it is written, code unit for code unit, so the case of
  letters counts; whether a frame passes depends on that frame and the filter alone, and
  the frames that pass keep their order. \<^verbatim>\<open>renderLogs\<close> then shows a frame under the
  same test, on the text it displays.
\<close>

theorem filtered_plain_substring:
  assumes "flt \<noteq> []"
  shows "filtered compile test lines flt False activeConnId
      = filter (\<lambda>l. in_scope activeConnId l \<and> sublist flt (line_text l)) lines \<and>
    renderLogs compile test lines view flt False
      = map (\<lambda>l. let t = (if view = ascii then line_text l else formatPayload (raw l) hex [])
                 in if sublist flt t then Some t else None) lines"
  using assms by (simp add: filtered_plain renderLogs_def render_rows_plain)

theorem filtered_plain_substring_witness:
  "str ''abc'' \<noteq> [] \<and>
   filtered (\<lambda>pattern flags. None :: unit option) (\<lambda>re s. (True, re))
     [line ''RX'' ''xabcx'' ''main'', line ''RX'' ''ABC'' ''main'', line ''RX'' ''abc'' ''other'']
     (str ''abc'') False (str ''main'')
     = [line ''RX'' ''xabcx'' ''main'']"
  using filtered_plain_substring
    [of "str ''abc''" "\<lambda>pattern flags. None :: unit option" "\<lambda>re s. (True, re)"
        "[line ''RX'' ''xabcx'' ''main'', line ''RX'' ''ABC'' ''main'', line ''RX'' ''abc'' ''other'']"
        "str ''main''" ascii]
  by (simp add: filtered_def line_def str_def)

text \<open>
  With a pattern the host refuses, \<^verbatim>\<open>filtered\<close> returns every frame of the active
  connection.
\<close>

lemma filtered_invalid_regex:
  "compile flt (str ''i'') = None \<Longrightarrow>
   filtered compile test lines flt True activeConnId = filter (in_scope activeConnId) lines"
  by (simp add: filtered_def Let_def in_scope_def [abs_def])

text \<open>
  C4. With the regular expression switched on and a pattern that does not compile, no
  frame of the active connection is left out. \<^verbatim>\<open>filtered\<close> does so
  (\<open>filtered_invalid_regex\<close>). \<^verbatim>\<open>renderLogs\<close>, which receives the result, sets its
  expression to \<^verbatim>\<open>null\<close> in the \<^verbatim>\<open>catch\<close> and then tests the pattern as plain text: for
  the pattern \<^verbatim>\<open>(\<close>, on a host that refuses it, the frame with the text \<^verbatim>\<open>abc\<close> passes
  \<^verbatim>\<open>filtered\<close> and is not rendered.
\<close>

theorem renderLogs_invalid_regex_drops_frame:
  "filtered (\<lambda>pattern flags. if pattern = str ''('' then None else Some ()) (\<lambda>re s. (True, re))
     [line ''RX'' ''abc'' ''main''] (str ''('') True (str ''main'')
     = [line ''RX'' ''abc'' ''main''] \<and>
   renderLogs (\<lambda>pattern flags. if pattern = str ''('' then None else Some ()) (\<lambda>re s. (True, re))
     [line ''RX'' ''abc'' ''main''] ascii (str ''('') True
     = [None]"
  by (simp add: filtered_def renderLogs_def line_def str_def)

subsection \<open>Properties of the settings\<close>

lemma field_spread:
  "map_of (spread a b) k = (case map_of b k of Some v \<Rightarrow> Some v | None \<Rightarrow> map_of a k)"
  by (simp add: spread_def AList.merge_conv' map_add_def)

lemma spread_Nil: "spread a [] = a"
  by (simp add: spread_def)

lemma loadSettings_merged:
  assumes "getItem SETTINGS_KEY = Inr (Some raw_text)" "raw_text \<noteq> []"
    "parse raw_text = Some parsed" "parsed \<noteq> JNull"
  shows "loadSettings getItem parse =
     JObj (spread
       (spread (ownProps defaultSettings) (ownProps parsed))
       [(str ''serial'', JObj (spread defaultSerial (ownProps (orEmpty (field parsed (str ''serial'')))))),
        (str ''socket'', JObj (spread defaultSocket (ownProps (orEmpty (field parsed (str ''socket''))))))])"
  using assms by (cases parsed) (simp_all add: loadSettings_def getProp_def)

lemma loadSettings_fallback:
  assumes "\<not> (\<exists>raw_text parsed. getItem SETTINGS_KEY = Inr (Some raw_text) \<and> raw_text \<noteq> [] \<and>
    parse raw_text = Some parsed \<and> parsed \<noteq> JNull)"
  shows "loadSettings getItem parse = defaultSettings"
proof (cases "getItem SETTINGS_KEY")
  case (Inl e)
  then show ?thesis by (simp add: loadSettings_def)
next
  case (Inr stored)
  show ?thesis
  proof (cases stored)
    case None
    with Inr show ?thesis by (simp add: loadSettings_def)
  next
    case (Some r)
    show ?thesis
    proof (cases "r = []")
      case True
      with Inr Some show ?thesis by (simp add: loadSettings_def)
    next
      case False
      show ?thesis
      proof (cases "parse r")
        case None
        with Inr Some show ?thesis by (simp add: loadSettings_def)
      next
        case (Some p)
        with assms Inr \<open>stored = Some r\<close> False have "p = JNull"
          by blast
        with Inr \<open>stored = Some r\<close> Some show ?thesis
          by (simp add: loadSettings_def getProp_def)
      qed
    qed
  qed
qed

lemma orEmpty_field:
  "(case x of None \<Rightarrow> None | Some w \<Rightarrow> field w k) = None \<Longrightarrow> map_of (ownProps (orEmpty x)) k = None"
proof (cases x)
  case None
  then show ?thesis by (simp add: orEmpty_def)
next
  case (Some w)
  assume "(case x of None \<Rightarrow> None | Some w \<Rightarrow> field w k) = None"
  with Some have "map_of (ownProps w) k = None"
    by (simp add: field_def)
  with Some show ?thesis
    by (cases w) (simp_all add: orEmpty_def)
qed

lemma default_serial: "field defaultSettings (str ''serial'') = Some (JObj defaultSerial)"
  by (simp add: field_def defaultSettings_def str_def)

lemma default_socket: "field defaultSettings (str ''socket'') = Some (JObj defaultSocket)"
  by (simp add: field_def defaultSettings_def str_def)

lemma merged_top:
  assumes "L = JObj (spread
       (spread (ownProps defaultSettings) (ownProps parsed))
       [(str ''serial'', JObj (spread defaultSerial (ownProps (orEmpty (field parsed (str ''serial'')))))),
        (str ''socket'', JObj (spread defaultSocket (ownProps (orEmpty (field parsed (str ''socket''))))))])"
  shows "field L (str ''serial'') = Some (JObj (spread defaultSerial (ownProps (orEmpty (field parsed (str ''serial''))))))"
    and "field L (str ''socket'') = Some (JObj (spread defaultSocket (ownProps (orEmpty (field parsed (str ''socket''))))))"
    and "k \<noteq> str ''serial'' \<Longrightarrow> k \<noteq> str ''socket'' \<Longrightarrow>
      field L k = (case field parsed k of Some v \<Rightarrow> Some v | None \<Rightarrow> field defaultSettings k)"
  using assms by (simp_all add: field_def field_spread str_def split: option.splits)


text \<open>
  C9. Whatever the storage holds, \<^verbatim>\<open>loadSettings\<close> returns a complete record. If the
  read throws, if there is no stored value or if the stored text is no JSON, the result
  is \<open>defaultSettings\<close>. If the stored text parses, every field that the stored record
  does not have equals its default, and so does, one by one, every field of
  \<^verbatim>\<open>serial\<close> and of \<^verbatim>\<open>socket\<close> that the stored record does not have there. In every
  case each field of the defaults, nested ones included, is present in the result. And
  \<^verbatim>\<open>saveSettings\<close> ends without an exception whether or not the write fails.
\<close>

theorem settings_fall_back_to_defaults:
  "(getItem SETTINGS_KEY = Inl e \<or> getItem SETTINGS_KEY = Inr None \<or>
     (getItem SETTINGS_KEY = Inr (Some raw_text) \<and> parse raw_text = None)
      \<longrightarrow> loadSettings getItem parse = defaultSettings) \<and>
   (getItem SETTINGS_KEY = Inr (Some raw_text) \<and> parse raw_text = Some parsed \<longrightarrow>
      (field parsed k = None \<longrightarrow>
         field (loadSettings getItem parse) k = field defaultSettings k) \<and>
      (field2 parsed (str ''serial'') k = None \<longrightarrow>
         field2 (loadSettings getItem parse) (str ''serial'') k
           = field2 defaultSettings (str ''serial'') k) \<and>
      (field2 parsed (str ''socket'') k = None \<longrightarrow>
         field2 (loadSettings getItem parse) (str ''socket'') k
           = field2 defaultSettings (str ''socket'') k)) \<and>
   (field defaultSettings k \<noteq> None \<longrightarrow> field (loadSettings getItem parse) k \<noteq> None) \<and>
   (field2 defaultSettings (str ''serial'') k \<noteq> None \<longrightarrow>
      field2 (loadSettings getItem parse) (str ''serial'') k \<noteq> None) \<and>
   (field2 defaultSettings (str ''socket'') k \<noteq> None \<longrightarrow>
      field2 (loadSettings getItem parse) (str ''socket'') k \<noteq> None) \<and>
   (\<exists>st'. saveSettings stringify setItem settings st = Inr st')"
proof -
  have fallback: "getItem SETTINGS_KEY = Inl e \<or> getItem SETTINGS_KEY = Inr None \<or>
     (getItem SETTINGS_KEY = Inr (Some raw_text) \<and> parse raw_text = None)
      \<longrightarrow> loadSettings getItem parse = defaultSettings"
  proof (intro impI)
    assume "getItem SETTINGS_KEY = Inl e \<or> getItem SETTINGS_KEY = Inr None \<or>
     (getItem SETTINGS_KEY = Inr (Some raw_text) \<and> parse raw_text = None)"
    then have "\<not> (\<exists>raw_text parsed. getItem SETTINGS_KEY = Inr (Some raw_text) \<and> raw_text \<noteq> [] \<and>
       parse raw_text = Some parsed \<and> parsed \<noteq> JNull)"
      by auto
    then show "loadSettings getItem parse = defaultSettings"
      by (rule loadSettings_fallback)
  qed
  have save: "\<exists>st'. saveSettings stringify setItem settings st = Inr st'"
    by (simp add: saveSettings_def split: sum.splits)
  show ?thesis
  proof (cases "\<exists>raw_text parsed. getItem SETTINGS_KEY = Inr (Some raw_text) \<and> raw_text \<noteq> [] \<and>
    parse raw_text = Some parsed \<and> parsed \<noteq> JNull")
    case False
    then have "loadSettings getItem parse = defaultSettings"
      by (rule loadSettings_fallback)
    with fallback save show ?thesis by simp
  next
    case True
    then obtain r p where rp: "getItem SETTINGS_KEY = Inr (Some r)" "r \<noteq> []"
      "parse r = Some p" "p \<noteq> JNull"
      by blast
    note L = loadSettings_merged [of getItem r parse p, OF rp]
    note top = merged_top [OF L]
    have same: "getItem SETTINGS_KEY = Inr (Some raw_text) \<and> parse raw_text = Some parsed \<Longrightarrow> parsed = p"
      using rp by simp
    have serial: "field2 (loadSettings getItem parse) (str ''serial'') k
        = (case map_of (ownProps (orEmpty (field p (str ''serial'')))) k of
             Some v \<Rightarrow> Some v | None \<Rightarrow> map_of defaultSerial k)"
      by (simp add: field2_def top(1)) (simp add: field_def field_spread)
    have dserial: "field2 defaultSettings (str ''serial'') k = map_of defaultSerial k"
      by (simp add: field2_def default_serial) (simp add: field_def)
    have socket: "field2 (loadSettings getItem parse) (str ''socket'') k
        = (case map_of (ownProps (orEmpty (field p (str ''socket'')))) k of
             Some v \<Rightarrow> Some v | None \<Rightarrow> map_of defaultSocket k)"
      by (simp add: field2_def top(2)) (simp add: field_def field_spread)
    have dsocket: "field2 defaultSettings (str ''socket'') k = map_of defaultSocket k"
      by (simp add: field2_def default_socket) (simp add: field_def)
    have a: "field parsed k = None \<longrightarrow>
         field (loadSettings getItem parse) k = field defaultSettings k"
      if "getItem SETTINGS_KEY = Inr (Some raw_text) \<and> parse raw_text = Some parsed"
    proof (intro impI)
      assume none: "field parsed k = None"
      have pp: "parsed = p" using that by (rule same)
      show "field (loadSettings getItem parse) k = field defaultSettings k"
      proof (cases "k = str ''serial''")
        case True
        have "field p (str ''serial'') = None"
          using none pp True by simp
        then have "orEmpty (field p (str ''serial'')) = JObj []"
          by (simp add: orEmpty_def)
        then have "field (loadSettings getItem parse) (str ''serial'') = Some (JObj defaultSerial)"
          by (simp add: top(1) spread_Nil)
        then show ?thesis
          by (simp only: True default_serial)
      next
        case False
        note not_serial = this
        show ?thesis
        proof (cases "k = str ''socket''")
          case True
          have "field p (str ''socket'') = None"
            using none pp True by simp
          then have "orEmpty (field p (str ''socket'')) = JObj []"
            by (simp add: orEmpty_def)
          then have "field (loadSettings getItem parse) (str ''socket'') = Some (JObj defaultSocket)"
            by (simp add: top(2) spread_Nil)
          then show ?thesis
            by (simp only: True default_socket)
        next
          case False
          have "field (loadSettings getItem parse) k
              = (case field p k of Some v \<Rightarrow> Some v | None \<Rightarrow> field defaultSettings k)"
            using not_serial False by (rule top(3))
          moreover have "field p k = None"
            using none pp by simp
          ultimately show ?thesis
            by simp
        qed
      qed
    qed
    have b: "field2 parsed (str ''serial'') k = None \<longrightarrow>
         field2 (loadSettings getItem parse) (str ''serial'') k
           = field2 defaultSettings (str ''serial'') k"
      if "getItem SETTINGS_KEY = Inr (Some raw_text) \<and> parse raw_text = Some parsed"
      using same [OF that] orEmpty_field [where x = "field p (str ''serial'')" and k = k]
      unfolding serial dserial by (simp add: field2_def)
    have c: "field2 parsed (str ''socket'') k = None \<longrightarrow>
         field2 (loadSettings getItem parse) (str ''socket'') k
           = field2 defaultSettings (str ''socket'') k"
      if "getItem SETTINGS_KEY = Inr (Some raw_text) \<and> parse raw_text = Some parsed"
      using same [OF that] orEmpty_field [where x = "field p (str ''socket'')" and k = k]
      unfolding socket dsocket by (simp add: field2_def)
    have d: "field defaultSettings k \<noteq> None \<longrightarrow> field (loadSettings getItem parse) k \<noteq> None"
    proof (cases "k = str ''serial'' \<or> k = str ''socket''")
      case True
      then show ?thesis using top(1) top(2) by auto
    next
      case False
      then show ?thesis by (simp add: top(3) split: option.splits)
    qed
    have e: "field2 defaultSettings (str ''serial'') k \<noteq> None \<longrightarrow>
      field2 (loadSettings getItem parse) (str ''serial'') k \<noteq> None"
      by (simp add: serial dserial split: option.splits)
    have f: "field2 defaultSettings (str ''socket'') k \<noteq> None \<longrightarrow>
      field2 (loadSettings getItem parse) (str ''socket'') k \<noteq> None"
      by (simp add: socket dsocket split: option.splits)
    show ?thesis
      using fallback save a b c d e f by blast
  qed
qed


theorem settings_fall_back_to_defaults_witness:
  \<open>(\<lambda>key. if key = SETTINGS_KEY then Inr (Some (str ''{"serial":{"baud":9600}}'')) else Inr None)
      SETTINGS_KEY = Inr (Some (str ''{"serial":{"baud":9600}}'')) \<and>
   field2 (JObj [(str ''serial'', JObj [(str ''baud'', JNum 9600)])]) (str ''serial'') (str ''parity'')
     = None \<and>
   field2
     (loadSettings
        (\<lambda>key. if key = SETTINGS_KEY then Inr (Some (str ''{"serial":{"baud":9600}}'')) else Inr None)
        (\<lambda>s. if s = str ''{"serial":{"baud":9600}}''
              then Some (JObj [(str ''serial'', JObj [(str ''baud'', JNum 9600)])]) else None))
     (str ''serial'') (str ''parity'') = Some (JStr (str ''none'')) \<and>
   loadSettings (\<lambda>key. Inr None) (\<lambda>s. None) = defaultSettings \<and>
   saveSettings (\<lambda>v. Inr (str ''{}'')) (\<lambda>key v st. Inl QuotaExceededError) defaultSettings
     [(str ''other'', str ''kept'')] = Inr [(str ''other'', str ''kept'')]\<close>
  using
    settings_fall_back_to_defaults
      [where getItem = "\<lambda>key. if key = SETTINGS_KEY then Inr (Some (str ''{\"serial\":{\"baud\":9600}}'')) else Inr None"
         and parse = "\<lambda>s. if s = str ''{\"serial\":{\"baud\":9600}}''
              then Some (JObj [(str ''serial'', JObj [(str ''baud'', JNum 9600)])]) else None"
         and raw_text = "str ''{\"serial\":{\"baud\":9600}}''"
         and parsed = "JObj [(str ''serial'', JObj [(str ''baud'', JNum 9600)])]"
         and k = "str ''parity''" and e = SecurityError
         and stringify = "\<lambda>v. Inr (str ''{}'')" and setItem = "\<lambda>key v st. Inl QuotaExceededError"
         and settings = defaultSettings and st = "[(str ''other'', str ''kept'')]"]
    settings_fall_back_to_defaults
      [where getItem = "\<lambda>key. Inr None" and parse = "\<lambda>s. None"
         and raw_text = "[]" and parsed = JNull
         and k = "str ''parity''" and e = SecurityError
         and stringify = "\<lambda>v. Inr (str ''{}'')" and setItem = "\<lambda>key v st. Inl QuotaExceededError"
         and settings = defaultSettings and st = "[(str ''other'', str ''kept'')]"]
  by (simp add: field2_def field_def defaultSettings_def defaultSerial_def saveSettings_def str_def)

end
